theory Spec2Isabelle
  imports Main
begin

section \<open>The finite state machine of the player: data\<close>

text \<open>
  The machine is the JavaScript class \<open>FiniteStateMachine\<close> with its helper classes
  \<open>State\<close> and \<open>Transition\<close>. State and Transition objects are mutable and shared
  (a Transition is referenced by the builder that \<open>from\<close> returns and by the list of its
  origin State), so both live in a store and are referred to by their index.
\<close>

type_synonym addr = nat
type_synonym tref = nat

text \<open>
  Property values pushed by the owner: the primitive values of JavaScript. Numbers are
  integers here; the machine never computes with a property value.
\<close>

datatype prim = PUndefined | PNull | PBool bool | PNum int | PStr string

text \<open>
  The property bag \<open>this.values = {}\<close>: a plain object. \<open>props\<close> are its own properties;
  \<open>proto_null\<close> says that its prototype has been set to \<open>null\<close>, after which it inherits
  nothing from \<open>Object.prototype\<close>.
\<close>

record bag =
  props :: "string \<rightharpoonup> prim"
  proto_null :: bool

text \<open>
  A guard is code of the owner. It is taken as a pure predicate of the bag: the truthiness
  of what the function returns. Guards that throw or write are outside the model.
\<close>

type_synonym guard = "bag \<Rightarrow> bool"

text \<open>
  What a reference held by the machine can be: \<open>null\<close>, a State object, or one of the
  values that a lookup in the plain object \<open>this._states\<close> finds through its prototype
  chain: a built-in function or class (named by its \<open>name\<close> property),
  \<open>Object.prototype\<close> itself, and, once a State object has become the prototype of the
  registry, the fields of that State: the machine (\<open>fsm\<close>), the string \<open>name\<close> and the
  array \<open>_transitions\<close>.
\<close>

datatype jsval =
    JNull
  | StateObj addr
  | BuiltinFunction string
  | ObjectPrototype
  | MachineObj
  | StringVal string
  | TransitionsArray addr

record state_obj =
  name :: string
  transitions :: "tref list"

record transition =
  validation :: guard
  fromState :: jsval
  toState :: jsval

text \<open>
  The registry \<open>this._states = {}\<close>: its own properties, and its prototype when an
  assignment to the key \<open>__proto__\<close> has replaced \<open>Object.prototype\<close> by a State object.
\<close>

record machine =
  states_own :: "string \<rightharpoonup> addr"
  states_proto :: "addr option"
  values_fsm :: bag
  currentState :: jsval
  state_store :: "state_obj list"
  transition_store :: "transition list"

text \<open>
  What the code throws: the string \<open>State <name> not found\<close> of \<open>getState\<close>, and the
  \<open>TypeError\<close> of the runtime when a property of \<open>null\<close> is read or a value that is
  not a function is called.
\<close>

datatype error = StateNotFound string | TypeError

section \<open>Property access on plain objects\<close>

definition object_prototype_methods :: "string list" where
  "object_prototype_methods =
     [''__defineGetter__'', ''__defineSetter__'', ''hasOwnProperty'', ''__lookupGetter__'',
      ''__lookupSetter__'', ''isPrototypeOf'', ''propertyIsEnumerable'', ''toString'',
      ''valueOf'', ''toLocaleString'']"

text \<open>Reading a key other than \<open>__proto__\<close> from \<open>Object.prototype\<close>; \<open>None\<close> is \<open>undefined\<close>.\<close>

definition object_prototype_get :: "string \<Rightarrow> jsval option" where
  "object_prototype_get k =
     (if k = ''constructor'' then Some (BuiltinFunction ''Object'')
      else if k \<in> set object_prototype_methods then Some (BuiltinFunction k)
      else None)"

text \<open>
  Reading a key from a State object: its own fields, then the methods of
  \<open>State.prototype\<close>, then \<open>Object.prototype\<close>.
\<close>

definition state_get :: "state_obj list \<Rightarrow> addr \<Rightarrow> string \<Rightarrow> jsval option" where
  "state_get S s k =
     (if k = ''fsm'' then Some MachineObj
      else if k = ''name'' then Some (StringVal (name (S ! s)))
      else if k = ''_transitions'' then Some (TransitionsArray s)
      else if k = ''constructor'' then Some (BuiltinFunction ''State'')
      else if k = ''addTransition'' \<or> k = ''checkForTransitions'' then Some (BuiltinFunction k)
      else object_prototype_get k)"

text \<open>
  \<open>this._states[k]\<close>. The key \<open>__proto__\<close> is the accessor of \<open>Object.prototype\<close> and
  yields the prototype of the registry; any other key is an own property or is inherited.
\<close>

definition states_get :: "machine \<Rightarrow> string \<Rightarrow> jsval option" where
  "states_get m k =
     (if k = ''__proto__'' then
        Some (case states_proto m of None \<Rightarrow> ObjectPrototype | Some s \<Rightarrow> StateObj s)
      else
        (case states_own m k of
           Some a \<Rightarrow> Some (StateObj a)
         | None \<Rightarrow>
             (case states_proto m of
                None \<Rightarrow> object_prototype_get k
              | Some s \<Rightarrow> state_get (state_store m) s k)))"

text \<open>
  \<open>this._states[k] = s\<close>: the setter of \<open>__proto__\<close> makes the State object the prototype
  of the registry; any other key becomes an own property.
\<close>

definition states_set :: "machine \<Rightarrow> string \<Rightarrow> addr \<Rightarrow> machine" where
  "states_set m k a =
     (if k = ''__proto__'' then m\<lparr>states_proto := Some a\<rparr>
      else m\<lparr>states_own := (states_own m)(k \<mapsto> a)\<rparr>)"

text \<open>
  \<open>this.values[key] = value\<close> for a primitive value. While the bag inherits from
  \<open>Object.prototype\<close>, the key \<open>__proto__\<close> is its setter: \<open>null\<close> detaches the bag
  from its prototype and every other primitive is ignored.
\<close>

definition bag_set :: "bag \<Rightarrow> string \<Rightarrow> prim \<Rightarrow> bag" where
  "bag_set b key v =
     (if key = ''__proto__'' \<and> \<not> proto_null b then
        (if v = PNull then b\<lparr>proto_null := True\<rparr> else b)
      else b\<lparr>props := (props b)(key \<mapsto> v)\<rparr>)"

text \<open>Truthiness of a reference, as tested by \<open>if (x)\<close> and \<open>!x\<close>.\<close>

fun truthy :: "jsval \<Rightarrow> bool" where
  "truthy JNull = False"
| "truthy (StringVal s) = (s \<noteq> [])"
| "truthy _ = True"

text \<open>The property \<open>name\<close> of a reference that is not \<open>null\<close>; \<open>None\<close> is \<open>undefined\<close>.\<close>

fun name_of :: "state_obj list \<Rightarrow> jsval \<Rightarrow> string option" where
  "name_of S (StateObj a) = Some (name (S ! a))"
| "name_of S (BuiltinFunction f) = Some f"
| "name_of S _ = None"

text \<open>A value used as a property key or in a template string: \<open>undefined\<close> reads \<open>undefined\<close>.\<close>

fun to_key :: "string option \<Rightarrow> string" where
  "to_key None = ''undefined''"
| "to_key (Some s) = s"

section \<open>The classes\<close>

subsection \<open>FiniteStateMachine: constructor, getState, setCurrentState, addState\<close>

definition new_FiniteStateMachine :: machine where
  "new_FiniteStateMachine =
     \<lparr>states_own = Map.empty, states_proto = None,
      values_fsm = \<lparr>props = Map.empty, proto_null = False\<rparr>,
      currentState = JNull, state_store = [], transition_store = []\<rparr>"

definition getState :: "machine \<Rightarrow> string \<Rightarrow> error + jsval" where
  "getState m statename =
     (case states_get m statename of
        None \<Rightarrow> Inl (StateNotFound statename)
      | Some v \<Rightarrow> if \<not> truthy v then Inl (StateNotFound statename) else Inr v)"

definition currentStateName :: "machine \<Rightarrow> error + string option" where
  "currentStateName m =
     (if currentState m = JNull then Inl TypeError
      else Inr (name_of (state_store m) (currentState m)))"

definition setCurrentState :: "machine \<Rightarrow> string \<Rightarrow> (error + unit) \<times> machine" where
  "setCurrentState m stateName =
     (case getState m stateName of
        Inl e \<Rightarrow> (Inl e, m)
      | Inr v \<Rightarrow> (Inr (), m\<lparr>currentState := v\<rparr>))"

definition addState :: "machine \<Rightarrow> string \<Rightarrow> machine" where
  "addState m stateName =
     (let a = length (state_store m);
          m1 = m\<lparr>state_store := state_store m @ [\<lparr>name = stateName, transitions = []\<rparr>]\<rparr>
      in states_set m1 stateName a)"

subsection \<open>State.checkForTransitions and updateInternalState\<close>

text \<open>
  The loop \<open>for (let t of this._transitions)\<close>: the destination of the first transition
  whose guard is true on the bag, \<open>null\<close> when there is none.
\<close>

fun first_valid :: "transition list \<Rightarrow> bag \<Rightarrow> tref list \<Rightarrow> jsval" where
  "first_valid T vs [] = JNull"
| "first_valid T vs (t # ts) =
     (if validation (T ! t) vs then toState (T ! t) else first_valid T vs ts)"

definition checkForTransitions :: "machine \<Rightarrow> addr \<Rightarrow> jsval" where
  "checkForTransitions m a =
     first_valid (transition_store m) (values_fsm m) (transitions (state_store m ! a))"

definition updateInternalState :: "machine \<Rightarrow> (error + unit) \<times> machine" where
  "updateInternalState m =
     (case currentState m of
        StateObj a \<Rightarrow>
          (let nwState = checkForTransitions m a in
           if truthy nwState then setCurrentState m (to_key (name_of (state_store m) nwState))
           else (Inr (), m))
      | _ \<Rightarrow> (Inl TypeError, m))"

subsection \<open>setProperty and setProperties\<close>

definition setProperty :: "machine \<Rightarrow> string \<Rightarrow> prim \<Rightarrow> (error + unit) \<times> machine" where
  "setProperty m key v = updateInternalState (m\<lparr>values_fsm := bag_set (values_fsm m) key v\<rparr>)"

text \<open>
  The argument of \<open>setProperties\<close> is an object, given by its entries in the order of
  \<open>Object.keys\<close>; \<open>objects[key]\<close> is \<open>object_get\<close>.
\<close>

definition object_get :: "(string \<times> prim) list \<Rightarrow> string \<Rightarrow> prim" where
  "object_get objects key = (case map_of objects key of None \<Rightarrow> PUndefined | Some v \<Rightarrow> v)"

definition write_all :: "(string \<times> prim) list \<Rightarrow> bag \<Rightarrow> bag" where
  "write_all objects b =
     fold (\<lambda>key b. bag_set b key (object_get objects key)) (map fst objects) b"

definition setProperties :: "machine \<Rightarrow> (string \<times> prim) list \<Rightarrow> (error + unit) \<times> machine" where
  "setProperties m objects = updateInternalState (m\<lparr>values_fsm := write_all objects (values_fsm m)\<rparr>)"

subsection \<open>The builder: from, Transition.to, Transition.when\<close>

definition new_Transition :: transition where
  "new_Transition = \<lparr>validation = (\<lambda>_. True), fromState = JNull, toState = JNull\<rparr>"

text \<open>
  \<open>from\<close> calls \<open>getState\<close> twice, with the same result, and calls \<open>addTransition\<close> on it,
  which only a State object has. The Transition allocated before a throw is unreachable
  and is not kept.
\<close>

definition from_fsm :: "machine \<Rightarrow> string \<Rightarrow> (error + tref) \<times> machine" where
  "from_fsm m stateName =
     (case getState m stateName of
        Inl e \<Rightarrow> (Inl e, m)
      | Inr v \<Rightarrow>
          (case v of
             StateObj a \<Rightarrow>
               (let t = length (transition_store m);
                    S = state_store m
                in (Inr t,
                    m\<lparr>transition_store := transition_store m @ [new_Transition\<lparr>fromState := v\<rparr>],
                      state_store := S[a := (S ! a)\<lparr>transitions := transitions (S ! a) @ [t]\<rparr>]\<rparr>))
           | _ \<Rightarrow> (Inl TypeError, m)))"

definition to_transition :: "machine \<Rightarrow> tref \<Rightarrow> string \<Rightarrow> (error + tref) \<times> machine" where
  "to_transition m t state =
     (case getState m state of
        Inl e \<Rightarrow> (Inl e, m)
      | Inr v \<Rightarrow>
          (let T = transition_store m
           in (Inr t, m\<lparr>transition_store := T[t := (T ! t)\<lparr>toState := v\<rparr>]\<rparr>)))"

definition when_transition :: "machine \<Rightarrow> tref \<Rightarrow> guard \<Rightarrow> machine" where
  "when_transition m t validator =
     (let T = transition_store m
      in m\<lparr>transition_store := T[t := (T ! t)\<lparr>validation := validator\<rparr>]\<rparr>)"

subsection \<open>is and isOneOf\<close>

definition is_fsm :: "machine \<Rightarrow> string \<Rightarrow> error + bool" where
  "is_fsm m stateName =
     (if currentState m = JNull then Inl TypeError
      else Inr (name_of (state_store m) (currentState m) = Some stateName))"

text \<open>\<open>stateNames.some(x => this.is(x))\<close> stops at the first name that matches.\<close>

fun isOneOf :: "machine \<Rightarrow> string list \<Rightarrow> error + bool" where
  "isOneOf m [] = Inr False"
| "isOneOf m (x # xs) =
     (case is_fsm m x of
        Inl e \<Rightarrow> Inl e
      | Inr b \<Rightarrow> if b then Inr True else isOneOf m xs)"

section \<open>Machines reached through the interface\<close>

datatype op =
    AddState string
  | From string
  | To tref string
  | When tref guard
  | SetCurrentState string
  | SetProperty string prim
  | SetProperties "(string \<times> prim) list"

text \<open>The machine after a call, whether the call returned or threw.\<close>

fun exec :: "machine \<Rightarrow> op \<Rightarrow> machine" where
  "exec m (AddState n) = addState m n"
| "exec m (From n) = snd (from_fsm m n)"
| "exec m (To t n) = snd (to_transition m t n)"
| "exec m (When t g) = when_transition m t g"
| "exec m (SetCurrentState n) = snd (setCurrentState m n)"
| "exec m (SetProperty k v) = snd (setProperty m k v)"
| "exec m (SetProperties kvs) = snd (setProperties m kvs)"

definition run :: "op list \<Rightarrow> machine" where
  "run ops = foldl exec new_FiniteStateMachine ops"

section \<open>Well-formed machines\<close>

text \<open>
  The invariant of the machines built through the interface: every own entry of the
  registry and its prototype point to a State object of the store that carries the key as
  its name, every State object of the store has its name registered, every reference to a
  State object is inside the store, and so is every Transition listed by a State.
\<close>

fun ref_ok :: "nat \<Rightarrow> jsval \<Rightarrow> bool" where
  "ref_ok n (StateObj a) = (a < n)"
| "ref_ok n _ = True"

definition reg_ok :: "(string \<rightharpoonup> addr) \<Rightarrow> addr option \<Rightarrow> string list \<Rightarrow> bool" where
  "reg_ok own proto names \<longleftrightarrow>
     (\<forall>k a. own k = Some a \<longrightarrow> a < length names \<and> names ! a = k) \<and>
     (\<forall>s. proto = Some s \<longrightarrow> s < length names \<and> names ! s = ''__proto__'') \<and>
     (\<forall>n \<in> set names. if n = ''__proto__'' then proto \<noteq> None else own n \<noteq> None)"

definition wf_machine :: "machine \<Rightarrow> bool" where
  "wf_machine m \<longleftrightarrow>
     reg_ok (states_own m) (states_proto m) (map name (state_store m)) \<and>
     ref_ok (length (state_store m)) (currentState m) \<and>
     (\<forall>tr \<in> set (transition_store m). ref_ok (length (state_store m)) (toState tr)) \<and>
     (\<forall>s \<in> set (state_store m). \<forall>t \<in> set (transitions s). t < length (transition_store m))"

text \<open>The names passed to \<open>addState\<close> by a sequence of calls, in order.\<close>

fun added :: "op \<Rightarrow> string list" where
  "added (AddState n) = [n]"
| "added _ = []"

definition addstate_names :: "op list \<Rightarrow> string list" where
  "addstate_names ops = concat (map added ops)"

section \<open>Example machines\<close>

text \<open>
  The player's two states \<open>Idle\<close> and \<open>Running\<close>, switched by the property
  \<open>velocityX\<close>.
\<close>

definition moving :: guard where
  "moving b = (props b ''velocityX'' \<noteq> Some (PNum 0))"

definition still :: guard where
  "still b = (props b ''velocityX'' = Some (PNum 0))"

definition demo_ops :: "op list" where
  "demo_ops =
     [AddState ''Idle'', AddState ''Running'',
      From ''Idle'', To 0 ''Running'', When 0 moving,
      From ''Running'', To 1 ''Idle'', When 1 still,
      SetCurrentState ''Idle'']"

text \<open>
  Machines with transitions out of \<open>A\<close>: two guarded ones, the second one without a
  guard, the second one left without a destination, three guarded ones, and two with the
  same destination.
\<close>

definition flag_on :: guard where
  "flag_on b = (props b ''x'' = Some (PBool True))"

definition flag_known :: guard where
  "flag_known b = (props b ''x'' \<noteq> None)"

definition two_ops :: "op list" where
  "two_ops =
     [AddState ''A'', AddState ''B'', AddState ''C'',
      From ''A'', To 0 ''B'', When 0 flag_on,
      From ''A'', To 1 ''C'', When 1 flag_known,
      SetCurrentState ''A'']"

definition uncond_ops :: "op list" where
  "uncond_ops =
     [AddState ''A'', AddState ''B'', AddState ''C'',
      From ''A'', To 0 ''B'', When 0 flag_on,
      From ''A'', To 1 ''C'',
      SetCurrentState ''A'']"

definition half_ops :: "op list" where
  "half_ops =
     [AddState ''A'', AddState ''B'',
      From ''A'', To 0 ''B'', When 0 flag_on,
      From ''A'',
      SetCurrentState ''A'']"

definition three_ops :: "op list" where
  "three_ops =
     [AddState ''A'', AddState ''B'', AddState ''C'', AddState ''D'',
      From ''A'', To 0 ''D'', When 0 flag_on,
      From ''A'', To 1 ''B'', When 1 flag_on,
      From ''A'', To 2 ''C'', When 2 flag_known,
      SetCurrentState ''A'']"

definition same_dest_ops :: "op list" where
  "same_dest_ops =
     [AddState ''A'', AddState ''B'',
      From ''A'', To 0 ''B'', When 0 flag_on,
      From ''A'', To 1 ''B'', When 1 flag_known,
      SetCurrentState ''A'']"

text \<open>Machines whose guards read the properties \<open>a\<close>, \<open>b\<close> and \<open>__proto__\<close>.\<close>

definition a_set :: guard where
  "a_set b = (props b ''a'' = Some (PNum 1))"

definition b_set :: guard where
  "b_set b = (props b ''b'' = Some (PNum 2))"

definition both_set :: guard where
  "both_set b = (props b ''a'' = Some (PNum 1) \<and> props b ''b'' = Some (PNum 2))"

definition proto_and_b :: guard where
  "proto_and_b b = (props b ''__proto__'' = Some (PNum 1) \<and> props b ''b'' = Some (PNum 2))"

definition batch_ops :: "op list" where
  "batch_ops =
     [AddState ''A'', AddState ''B'', AddState ''C'',
      From ''A'', To 0 ''B'', When 0 both_set,
      From ''B'', To 1 ''C'', When 1 b_set,
      SetCurrentState ''A'']"

definition cascade_ops :: "op list" where
  "cascade_ops =
     [AddState ''A'', AddState ''B'', AddState ''C'',
      From ''A'', To 0 ''B'', When 0 a_set,
      From ''B'', To 1 ''C'', When 1 b_set,
      SetCurrentState ''A'']"

definition proto_ops :: "op list" where
  "proto_ops =
     [AddState ''A'', AddState ''B'',
      From ''A'', To 0 ''B'', When 0 proto_and_b,
      SetCurrentState ''A'']"

text \<open>
  An origin registered again after its transition was declared, a name registered twice,
  a setup that never sets the current state, and a started machine with one State.
\<close>

definition rereg_ops :: "op list" where
  "rereg_ops =
     [AddState ''Idle'', AddState ''Running'',
      From ''Idle'', To 0 ''Running'', When 0 moving,
      AddState ''Idle'',
      SetCurrentState ''Idle'']"

definition dup_ops :: "op list" where
  "dup_ops = [AddState ''A'', SetCurrentState ''A'', AddState ''A'']"

definition setup_ops :: "op list" where
  "setup_ops = [AddState ''Idle'', AddState ''Running'', From ''Idle'', To 0 ''Running'']"

definition started_ops :: "op list" where
  "started_ops = [AddState ''Idle'', From ''Idle'', SetCurrentState ''Idle'']"

section \<open>The registry and the invariant\<close>

lemma ref_ok_mono: "ref_ok n v \<Longrightarrow> n \<le> n' \<Longrightarrow> ref_ok n' v"
  by (cases v) auto

lemma object_prototype_get_not_state: "object_prototype_get k \<noteq> Some (StateObj a)"
  by (simp add: object_prototype_get_def)

lemma state_get_not_state: "state_get S s k \<noteq> Some (StateObj a)"
  by (simp add: state_get_def object_prototype_get_def)

lemma states_get_StateObj:
  "states_get m n = Some (StateObj a) \<longleftrightarrow>
     (if n = ''__proto__'' then states_proto m = Some a else states_own m n = Some a)"
  by (auto simp: states_get_def object_prototype_get_not_state state_get_not_state
      split: option.splits)

lemma getState_StateObj:
  "getState m n = Inr (StateObj a) \<longleftrightarrow> states_get m n = Some (StateObj a)"
  by (auto simp: getState_def split: option.splits if_splits)

lemma reg_ok_ownD:
  assumes "reg_ok own proto (map name S)" and "own k = Some a"
  shows "a < length S \<and> name (S ! a) = k"
proof -
  from assms have "a < length (map name S) \<and> map name S ! a = k"
    unfolding reg_ok_def by blast
  then show ?thesis by auto
qed

lemma reg_ok_protoD:
  assumes "reg_ok own proto (map name S)" and "proto = Some s"
  shows "s < length S \<and> name (S ! s) = ''__proto__''"
proof -
  from assms have "s < length (map name S) \<and> map name S ! s = ''__proto__''"
    unfolding reg_ok_def by blast
  then show ?thesis by auto
qed

lemma getState_bound:
  assumes "wf_machine m" and "getState m n = Inr (StateObj a)"
  shows "a < length (state_store m) \<and> name (state_store m ! a) = n"
proof -
  from assms(1) have r: "reg_ok (states_own m) (states_proto m) (map name (state_store m))"
    by (simp add: wf_machine_def)
  from assms(2) have "if n = ''__proto__'' then states_proto m = Some a else states_own m n = Some a"
    by (simp add: getState_StateObj states_get_StateObj)
  then show ?thesis
    using reg_ok_ownD[OF r] reg_ok_protoD[OF r] by (auto split: if_splits)
qed

lemma getState_ok:
  assumes "wf_machine m" and "getState m n = Inr v"
  shows "ref_ok (length (state_store m)) v"
  using getState_bound[OF assms(1)] assms(2) by (cases v) auto

lemma getState_registered:
  assumes "wf_machine m" and "a < length (state_store m)"
  shows "\<exists>a'. getState m (name (state_store m ! a)) = Inr (StateObj a') \<and>
           a' < length (state_store m) \<and> name (state_store m ! a') = name (state_store m ! a)"
proof -
  let ?n = "name (state_store m ! a)"
  from assms(1) have r: "reg_ok (states_own m) (states_proto m) (map name (state_store m))"
    by (simp add: wf_machine_def)
  from assms(2) have mem: "?n \<in> set (map name (state_store m))" by simp
  from r mem have "\<exists>a'. if ?n = ''__proto__'' then states_proto m = Some a' else states_own m ?n = Some a'"
    unfolding reg_ok_def by (metis not_None_eq)
  then obtain a' where a': "states_get m ?n = Some (StateObj a')"
    unfolding states_get_StateObj by blast
  then have g: "getState m ?n = Inr (StateObj a')" by (simp add: getState_StateObj)
  from getState_bound[OF assms(1) g] g show ?thesis by blast
qed

lemma wf_new: "wf_machine new_FiniteStateMachine"
  by (simp add: wf_machine_def reg_ok_def new_FiniteStateMachine_def)

lemma wf_values [simp]: "wf_machine (m\<lparr>values_fsm := b\<rparr>) = wf_machine m"
  by (simp add: wf_machine_def)

lemma states_get_values [simp]: "states_get (m\<lparr>values_fsm := b\<rparr>) n = states_get m n"
  by (simp add: states_get_def split: option.splits)

lemma getState_values [simp]: "getState (m\<lparr>values_fsm := b\<rparr>) n = getState m n"
  by (simp add: getState_def)

lemma wf_setCurrentState: "wf_machine m \<Longrightarrow> wf_machine (snd (setCurrentState m n))"
proof -
  assume w: "wf_machine m"
  show ?thesis
  proof (cases "getState m n")
    case (Inl e)
    with w show ?thesis by (simp add: setCurrentState_def)
  next
    case (Inr v)
    from getState_ok[OF w Inr] w have "wf_machine (m\<lparr>currentState := v\<rparr>)"
      by (simp add: wf_machine_def)
    with Inr show ?thesis by (simp add: setCurrentState_def)
  qed
qed

lemma reg_ok_add_own:
  assumes "reg_ok own proto names" and "n \<noteq> ''__proto__''" and "l = length names"
  shows "reg_ok (own(n \<mapsto> l)) proto (names @ [n])"
  using assms unfolding reg_ok_def
  by (auto simp: nth_append less_Suc_eq)

lemma reg_ok_add_proto:
  assumes "reg_ok own proto names" and "l = length names"
  shows "reg_ok own (Some l) (names @ [''__proto__''])"
  using assms unfolding reg_ok_def
  by (auto simp: nth_append less_Suc_eq)

lemma wf_addState: "wf_machine m \<Longrightarrow> wf_machine (addState m n)"
  unfolding wf_machine_def addState_def states_set_def Let_def
  by (auto simp: reg_ok_add_own reg_ok_add_proto intro: ref_ok_mono)

lemma wf_when: "wf_machine m \<Longrightarrow> wf_machine (when_transition m t g)"
proof -
  assume w: "wf_machine m"
  let ?T = "transition_store m"
  have "tr \<in> set (?T[t := (?T ! t)\<lparr>validation := g\<rparr>]) \<Longrightarrow> ref_ok (length (state_store m)) (toState tr)" for tr
  proof (cases "t < length ?T")
    case True
    assume "tr \<in> set (?T[t := (?T ! t)\<lparr>validation := g\<rparr>])"
    then have "tr = (?T ! t)\<lparr>validation := g\<rparr> \<or> tr \<in> set ?T"
      using set_update_subset_insert[of ?T t] by auto
    with w True show ?thesis by (auto simp: wf_machine_def)
  next
    case False
    assume "tr \<in> set (?T[t := (?T ! t)\<lparr>validation := g\<rparr>])"
    with w False show ?thesis by (simp add: wf_machine_def not_less list_update_beyond)
  qed
  with w show ?thesis by (simp add: wf_machine_def when_transition_def Let_def)
qed

lemma wf_to: "wf_machine m \<Longrightarrow> wf_machine (snd (to_transition m t n))"
proof -
  assume w: "wf_machine m"
  show ?thesis
  proof (cases "getState m n")
    case (Inl e)
    with w show ?thesis by (simp add: to_transition_def)
  next
    case (Inr v)
    let ?T = "transition_store m"
    have "ref_ok (length (state_store m)) (toState tr)"
      if "tr \<in> set (?T[t := (?T ! t)\<lparr>toState := v\<rparr>])" for tr
    proof -
      from that have "tr = (?T ! t)\<lparr>toState := v\<rparr> \<or> tr \<in> set ?T"
        using set_update_subset_insert[of ?T t] by auto
      with w getState_ok[OF w Inr] show ?thesis by (auto simp: wf_machine_def)
    qed
    with w have "wf_machine (m\<lparr>transition_store := ?T[t := (?T ! t)\<lparr>toState := v\<rparr>]\<rparr>)"
      by (simp add: wf_machine_def)
    with Inr show ?thesis by (simp add: to_transition_def Let_def)
  qed
qed

lemma map_name_update [simp]:
  "map name (S[a := (S ! a)\<lparr>transitions := ts\<rparr>]) = map name S"
  by (cases "a < length S") (simp_all add: map_update list_update_same_conv not_less list_update_beyond)

lemma wf_from: "wf_machine m \<Longrightarrow> wf_machine (snd (from_fsm m n))"
proof -
  assume w: "wf_machine m"
  show ?thesis
  proof (cases "getState m n")
    case (Inl e)
    with w show ?thesis by (simp add: from_fsm_def)
  next
    case (Inr v)
    show ?thesis
    proof (cases v)
      case (StateObj a)
      let ?S = "state_store m" and ?T = "transition_store m"
      let ?S' = "?S[a := (?S ! a)\<lparr>transitions := transitions (?S ! a) @ [length ?T]\<rparr>]"
      have "t < Suc (length ?T)" if "s \<in> set ?S'" "t \<in> set (transitions s)" for s t
      proof -
        from that(1) have "s = (?S ! a)\<lparr>transitions := transitions (?S ! a) @ [length ?T]\<rparr> \<and> a < length ?S \<or> s \<in> set ?S"
          by (metis in_set_conv_nth length_list_update nth_list_update_eq nth_list_update_neq)
        with that(2) w show ?thesis by (fastforce simp: wf_machine_def less_Suc_eq)
      qed
      with w have "wf_machine (m\<lparr>transition_store := ?T @ [new_Transition\<lparr>fromState := v\<rparr>],
             state_store := ?S'\<rparr>)"
        by (simp add: wf_machine_def new_Transition_def)
      with Inr StateObj show ?thesis by (simp add: from_fsm_def Let_def)
    qed (use w Inr in \<open>simp_all add: from_fsm_def\<close>)
  qed
qed

lemma wf_updateInternalState: "wf_machine m \<Longrightarrow> wf_machine (snd (updateInternalState m))"
  by (cases "currentState m") (simp_all add: updateInternalState_def Let_def wf_setCurrentState)

lemma wf_exec: "wf_machine m \<Longrightarrow> wf_machine (exec m op)"
  by (cases op)
    (simp_all add: wf_addState wf_from wf_to wf_when wf_setCurrentState
      setProperty_def setProperties_def wf_updateInternalState)

lemma wf_run: "wf_machine (run ops)"
  unfolding run_def by (induction ops rule: rev_induct) (simp_all add: wf_new wf_exec)

section \<open>The evaluation pass\<close>

lemma first_valid_hit:
  "\<forall>u\<in>set pre. \<not> validation (T ! u) vs \<Longrightarrow> validation (T ! t) vs \<Longrightarrow>
     first_valid T vs (pre @ t # post) = toState (T ! t)"
  by (induction pre) simp_all

lemma first_valid_miss:
  "\<forall>u\<in>set ts. \<not> validation (T ! u) vs \<Longrightarrow> first_valid T vs ts = JNull"
  by (induction ts) simp_all

lemma values_updateInternalState: "values_fsm (snd (updateInternalState m)) = values_fsm m"
  by (cases "currentState m")
    (auto simp: updateInternalState_def setCurrentState_def Let_def split: sum.splits)

lemma pass_fires:
  assumes w: "wf_machine m"
    and cur: "currentState m = StateObj a"
    and ts: "transitions (state_store m ! a) = pre @ t # post"
    and dest: "toState (transition_store m ! t) = StateObj b"
    and g: "validation (transition_store m ! t) (values_fsm m)"
    and pre: "\<forall>u\<in>set pre. \<not> validation (transition_store m ! u) (values_fsm m)"
  shows "\<exists>a'. updateInternalState m = (Inr (), m\<lparr>currentState := StateObj a'\<rparr>) \<and>
           a' < length (state_store m) \<and> name (state_store m ! a') = name (state_store m ! b)"
proof -
  from w cur have a: "a < length (state_store m)" by (simp add: wf_machine_def)
  then have "state_store m ! a \<in> set (state_store m)" by simp
  moreover from ts have "t \<in> set (transitions (state_store m ! a))" by simp
  ultimately have t: "t < length (transition_store m)"
    using w unfolding wf_machine_def by blast
  then have "transition_store m ! t \<in> set (transition_store m)" by simp
  with w dest have b: "b < length (state_store m)"
    unfolding wf_machine_def by (metis ref_ok.simps(1))
  from getState_registered[OF w b] obtain a' where
    a': "getState m (name (state_store m ! b)) = Inr (StateObj a')"
      "a' < length (state_store m)" "name (state_store m ! a') = name (state_store m ! b)"
    by blast
  have "checkForTransitions m a = StateObj b"
    using first_valid_hit[OF pre g] ts dest by (simp add: checkForTransitions_def)
  with cur a'(1) have "updateInternalState m = (Inr (), m\<lparr>currentState := StateObj a'\<rparr>)"
    by (simp add: updateInternalState_def setCurrentState_def)
  with a'(2,3) show ?thesis by blast
qed

lemma pass_idle:
  assumes cur: "currentState m = StateObj a"
    and none: "first_valid (transition_store m) (values_fsm m) (transitions (state_store m ! a)) = JNull"
  shows "updateInternalState m = (Inr (), m)"
  using assms by (simp add: updateInternalState_def checkForTransitions_def)

lemma update_cases:
  assumes "(r, m') = setProperty m key v \<or> (r, m') = setProperties m objects"
  obtains b where "(r, m') = updateInternalState (m\<lparr>values_fsm := b\<rparr>)" and "values_fsm m' = b"
proof -
  from assms obtain b where b: "(r, m') = updateInternalState (m\<lparr>values_fsm := b\<rparr>)"
    unfolding setProperty_def setProperties_def by blast
  then have "m' = snd (updateInternalState (m\<lparr>values_fsm := b\<rparr>))" by (metis snd_conv)
  then have "values_fsm m' = b" by (simp add: values_updateInternalState)
  with b that show thesis by blast
qed

text \<open>
  Claim C4. When the current state is a State and none of its transitions has a guard that
  is true on the bag produced by \<open>setProperty\<close> or \<open>setProperties\<close>, the call returns
  normally and \<open>currentStateName\<close>, as well as the current State object, is the same
  after the call as before it.
\<close>

theorem no_match_keeps_state:
  assumes "currentState m = StateObj a"
    and "(r, m') = setProperty m key v \<or> (r, m') = setProperties m objects"
    and "\<forall>u\<in>set (transitions (state_store m ! a)).
           \<not> validation (transition_store m ! u) (values_fsm m')"
  shows "r = Inr () \<and> currentStateName m' = currentStateName m \<and> currentState m' = currentState m"
proof -
  from assms(2) obtain bg where
    upd: "(r, m') = updateInternalState (m\<lparr>values_fsm := bg\<rparr>)" and bg: "values_fsm m' = bg"
    by (rule update_cases)
  let ?m = "m\<lparr>values_fsm := bg\<rparr>"
  from assms(3) bg have "first_valid (transition_store ?m) (values_fsm ?m)
      (transitions (state_store ?m ! a)) = JNull"
    by (simp add: first_valid_miss)
  with assms(1) have "updateInternalState ?m = (Inr (), ?m)"
    by (intro pass_idle) simp_all
  with upd show ?thesis by (simp add: currentStateName_def)
qed

lemma isOneOf_some:
  "currentState m \<noteq> JNull \<Longrightarrow>
     isOneOf m xs = Inr (\<exists>x\<in>set xs. name_of (state_store m) (currentState m) = Some x)"
  by (induction xs) (auto simp: is_fsm_def)

text \<open>
  Claim C9. With a current state set, \<open>currentStateName\<close> returns a value and
  \<open>isOneOf\<close> returns true exactly when that value is one of the given names.
\<close>

theorem isOneOf_iff_current_name:
  assumes "currentState m \<noteq> JNull"
  shows "\<exists>n. currentStateName m = Inr n \<and> isOneOf m xs = Inr (\<exists>x\<in>set xs. n = Some x)"
  using assms isOneOf_some[OF assms, of xs]
  by (simp add: currentStateName_def)

section \<open>Properties of all reachable machines\<close>

lemma state_store_updateInternalState:
  "state_store (snd (updateInternalState m)) = state_store m"
  by (cases "currentState m")
    (auto simp: updateInternalState_def setCurrentState_def Let_def split: sum.splits)

lemma transition_store_updateInternalState:
  "transition_store (snd (updateInternalState m)) = transition_store m"
  by (cases "currentState m")
    (auto simp: updateInternalState_def setCurrentState_def Let_def split: sum.splits)

lemma names_exec: "map name (state_store (exec m op)) = map name (state_store m) @ added op"
proof (cases op)
  case (AddState n)
  then show ?thesis by (simp add: addState_def states_set_def Let_def)
next
  case (From n)
  then show ?thesis
    by (auto simp: from_fsm_def Let_def split: sum.splits jsval.splits)
next
  case (To t n)
  then show ?thesis by (auto simp: to_transition_def Let_def split: sum.splits)
next
  case (When t g)
  then show ?thesis by (simp add: when_transition_def Let_def)
next
  case (SetCurrentState n)
  then show ?thesis by (auto simp: setCurrentState_def split: sum.splits)
next
  case (SetProperty k v)
  then show ?thesis by (simp add: setProperty_def state_store_updateInternalState)
next
  case (SetProperties kvs)
  then show ?thesis by (simp add: setProperties_def state_store_updateInternalState)
qed

lemma names_run: "map name (state_store (run ops)) = addstate_names ops"
  unfolding run_def addstate_names_def
  by (induction ops rule: rev_induct) (simp_all add: names_exec new_FiniteStateMachine_def)

lemma registry_exact:
  assumes w: "wf_machine m" and d: "distinct (map name (state_store m))"
    and a: "a < length (state_store m)"
  shows "states_get m (name (state_store m ! a)) = Some (StateObj a)"
proof -
  from getState_registered[OF w a] obtain a' where
    g: "getState m (name (state_store m ! a)) = Inr (StateObj a')"
    and a': "a' < length (state_store m)"
    and n: "name (state_store m ! a') = name (state_store m ! a)"
    by blast
  from a a' n have "map name (state_store m) ! a' = map name (state_store m) ! a" by simp
  moreover from d a a' have
    "(map name (state_store m) ! a' = map name (state_store m) ! a) = (a' = a)"
    by (intro nth_eq_iff_index_eq) simp_all
  ultimately have "a' = a" by blast
  with g show ?thesis by (simp add: getState_StateObj)
qed

text \<open>
  Claim C7, amended. The machine has one field for the current state. In every machine
  built through the interface, a current state that is a State object was created by
  \<open>addState\<close> of this machine, and the registry holds a State of the same name under
  that name; it holds that very object when no name was passed to \<open>addState\<close> twice.
\<close>

theorem current_state_registered:
  assumes "currentState (run ops) = StateObj a"
  shows "a < length (state_store (run ops)) \<and>
         (\<exists>a'. states_get (run ops) (name (state_store (run ops) ! a)) = Some (StateObj a') \<and>
            name (state_store (run ops) ! a') = name (state_store (run ops) ! a)) \<and>
         (distinct (addstate_names ops) \<longrightarrow>
            states_get (run ops) (name (state_store (run ops) ! a)) = Some (StateObj a))"
proof -
  let ?m = "run ops"
  have w: "wf_machine ?m" by (rule wf_run)
  with assms have a: "a < length (state_store ?m)" by (simp add: wf_machine_def)
  from getState_registered[OF w a] have
    "\<exists>a'. states_get ?m (name (state_store ?m ! a)) = Some (StateObj a') \<and>
       name (state_store ?m ! a') = name (state_store ?m ! a)"
    by (auto simp: getState_StateObj)
  moreover have "states_get ?m (name (state_store ?m ! a)) = Some (StateObj a)"
    if "distinct (addstate_names ops)"
    using registry_exact[OF w _ a] that by (simp add: names_run)
  ultimately show ?thesis using a by blast
qed

lemma currentState_exec_null:
  assumes "currentState m = JNull" and "\<forall>n. op \<noteq> SetCurrentState n"
  shows "currentState (exec m op) = JNull"
  using assms
  by (cases op)
    (auto simp: addState_def states_set_def Let_def from_fsm_def to_transition_def
      when_transition_def setProperty_def setProperties_def updateInternalState_def
      split: sum.splits jsval.splits)

lemma currentState_run_null:
  "\<forall>n. SetCurrentState n \<notin> set ops \<Longrightarrow> currentState (run ops) = JNull"
  unfolding run_def
proof (induction ops rule: rev_induct)
  case Nil
  then show ?case by (simp add: new_FiniteStateMachine_def)
next
  case (snoc op ops)
  then have "currentState (foldl exec new_FiniteStateMachine ops) = JNull" by simp
  moreover from snoc.prems have "\<forall>n. op \<noteq> SetCurrentState n" by auto
  ultimately show ?case by (simp add: currentState_exec_null)
qed

text \<open>
  Claim C8. On a machine for which \<open>setCurrentState\<close> was never called, reading
  \<open>currentStateName\<close> raises an error instead of returning a value, and so do
  \<open>setProperty\<close> and \<open>setProperties\<close> when they run the evaluation pass. The error is
  the \<open>TypeError\<close> of reading a property of \<open>null\<close>.
\<close>

theorem no_current_state_raises:
  assumes "\<forall>n. SetCurrentState n \<notin> set ops"
  shows "currentStateName (run ops) = Inl TypeError \<and>
         fst (setProperty (run ops) key v) = Inl TypeError \<and>
         fst (setProperties (run ops) objects) = Inl TypeError"
  using currentState_run_null[OF assms]
  by (simp add: currentStateName_def setProperty_def setProperties_def updateInternalState_def)

lemma transition_store_addState: "transition_store (addState m n) = transition_store m"
  by (simp add: addState_def states_set_def Let_def)

lemma validation_update_toState:
  "t < length T \<Longrightarrow> validation (T[t' := (T ! t')\<lparr>toState := v\<rparr>] ! t) = validation (T ! t)"
  by (cases "t' = t") simp_all

lemma default_guard_exec:
  assumes "\<forall>t < length (transition_store m). P t \<longrightarrow> validation (transition_store m ! t) = (\<lambda>_. True)"
    and "\<forall>t g. op = When t g \<longrightarrow> \<not> P t"
    and "t < length (transition_store (exec m op))" and "P t"
  shows "validation (transition_store (exec m op) ! t) = (\<lambda>_. True)"
proof (cases op)
  case (AddState n)
  with assms show ?thesis by (simp add: transition_store_addState)
next
  case (From n)
  with assms show ?thesis
    by (auto simp: from_fsm_def Let_def nth_append new_Transition_def less_Suc_eq
        split: sum.splits jsval.splits)
next
  case (To t' n)
  with assms show ?thesis
    by (auto simp: to_transition_def Let_def validation_update_toState split: sum.splits)
next
  case (When t' g)
  with assms have "t' \<noteq> t" by blast
  with When assms show ?thesis
    by (simp add: when_transition_def Let_def)
next
  case (SetCurrentState n)
  with assms show ?thesis by (auto simp: setCurrentState_def split: sum.splits)
next
  case (SetProperty k v)
  with assms show ?thesis by (simp add: setProperty_def transition_store_updateInternalState)
next
  case (SetProperties kvs)
  with assms show ?thesis by (simp add: setProperties_def transition_store_updateInternalState)
qed

lemma default_guard_run:
  "\<forall>g. When t g \<notin> set ops \<Longrightarrow> t < length (transition_store (run ops)) \<Longrightarrow>
     validation (transition_store (run ops) ! t) = (\<lambda>_. True)"
  unfolding run_def
proof (induction ops rule: rev_induct)
  case Nil
  then show ?case by (simp add: new_FiniteStateMachine_def)
next
  case (snoc op ops)
  let ?m = "foldl exec new_FiniteStateMachine ops"
  from snoc have ih: "\<forall>u < length (transition_store ?m). u = t \<longrightarrow>
      validation (transition_store ?m ! u) = (\<lambda>_. True)"
    by simp
  from snoc.prems(1) have "\<forall>u g. op = When u g \<longrightarrow> \<not> u = t" by auto
  from default_guard_exec[where P = "\<lambda>u. u = t", OF ih this] snoc.prems(2)
  show ?case by simp
qed

section \<open>Transitions taken by a property update\<close>

lemma update_fires:
  assumes "m = run ops"
    and "currentState m = StateObj a"
    and "transitions (state_store m ! a) = pre @ t # post"
    and "toState (transition_store m ! t) = StateObj b"
    and "(r, m') = setProperty m key v \<or> (r, m') = setProperties m objects"
    and "validation (transition_store m ! t) (values_fsm m')"
    and "\<forall>u\<in>set pre. \<not> validation (transition_store m ! u) (values_fsm m')"
  shows "r = Inr () \<and> currentStateName m' = Inr (Some (name (state_store m ! b)))"
proof -
  from assms(5) obtain bg where
    upd: "(r, m') = updateInternalState (m\<lparr>values_fsm := bg\<rparr>)" and bg: "values_fsm m' = bg"
    by (rule update_cases)
  let ?m = "m\<lparr>values_fsm := bg\<rparr>"
  have w: "wf_machine ?m" using assms(1) by (simp add: wf_run)
  from pass_fires[OF w, of a pre t post b] assms(2,3,4,6,7) bg
  obtain a' where "updateInternalState ?m = (Inr (), ?m\<lparr>currentState := StateObj a'\<rparr>)"
    and "name (state_store m ! a') = name (state_store m ! b)"
    by auto
  with upd show ?thesis by (simp add: currentStateName_def)
qed

lemma update_blocked:
  assumes "currentState m = StateObj a"
    and "transitions (state_store m ! a) = pre @ t # post"
    and "toState (transition_store m ! t) = JNull"
    and "(r, m') = setProperty m key v \<or> (r, m') = setProperties m objects"
    and "validation (transition_store m ! t) (values_fsm m')"
    and "\<forall>u\<in>set pre. \<not> validation (transition_store m ! u) (values_fsm m')"
  shows "r = Inr () \<and> currentState m' = currentState m \<and> currentStateName m' = currentStateName m"
proof -
  from assms(4) obtain bg where
    upd: "(r, m') = updateInternalState (m\<lparr>values_fsm := bg\<rparr>)" and bg: "values_fsm m' = bg"
    by (rule update_cases)
  let ?m = "m\<lparr>values_fsm := bg\<rparr>"
  from first_valid_hit[of pre "transition_store m" bg t post] assms(2,3,5,6) bg
  have "first_valid (transition_store ?m) (values_fsm ?m) (transitions (state_store ?m ! a)) = JNull"
    by simp
  with assms(1) have "updateInternalState ?m = (Inr (), ?m)"
    by (intro pass_idle) simp_all
  with upd show ?thesis by (simp add: currentStateName_def)
qed

text \<open>
  Claim C2, amended. First match wins: when the transition list of the current state holds
  \<open>t1\<close> before \<open>t2\<close>, both with a State as destination and both with a guard that is
  true on the bag of the evaluation pass, and no transition that stands before \<open>t1\<close> in
  the list has a guard that is true on that bag, the current state after the pass is the
  destination of \<open>t1\<close>; it is the destination of \<open>t2\<close> only when the two destinations
  have the same name.
\<close>

theorem first_match_wins:
  assumes "m = run ops"
    and "currentState m = StateObj a"
    and "transitions (state_store m ! a) = pre @ t1 # mid @ t2 # post"
    and "toState (transition_store m ! t1) = StateObj b1"
    and "toState (transition_store m ! t2) = StateObj b2"
    and "(r, m') = setProperty m key v \<or> (r, m') = setProperties m objects"
    and "validation (transition_store m ! t1) (values_fsm m')"
    and "validation (transition_store m ! t2) (values_fsm m')"
    and "\<forall>u\<in>set pre. \<not> validation (transition_store m ! u) (values_fsm m')"
  shows "r = Inr () \<and> currentStateName m' = Inr (Some (name (state_store m ! b1))) \<and>
         (name (state_store m ! b2) \<noteq> name (state_store m ! b1) \<longrightarrow>
            currentStateName m' \<noteq> Inr (Some (name (state_store m ! b2))))"
  using update_fires[OF assms(1-4) assms(6,7,9)] by simp

text \<open>
  Claim C6, amended. A transition for which \<open>when\<close> was never called has the guard that
  is true on every bag. It is taken by every evaluation pass that runs while its origin is
  the current state, provided its destination is bound to a State and no transition
  registered before it for that origin has a guard that is true on the bag; the
  transitions registered after it play no part.
\<close>

theorem unconditional_transition_fires:
  assumes "m = run ops"
    and "\<forall>g. When t g \<notin> set ops"
    and "currentState m = StateObj a"
    and "transitions (state_store m ! a) = pre @ t # post"
    and "toState (transition_store m ! t) = StateObj b"
    and "(r, m') = setProperty m key v \<or> (r, m') = setProperties m objects"
    and "\<forall>u\<in>set pre. \<not> validation (transition_store m ! u) (values_fsm m')"
  shows "validation (transition_store m ! t) = (\<lambda>_. True) \<and>
         r = Inr () \<and> currentStateName m' = Inr (Some (name (state_store m ! b)))"
proof -
  have w: "wf_machine m" using assms(1) by (simp add: wf_run)
  with assms(3) have a: "a < length (state_store m)" by (simp add: wf_machine_def)
  then have "state_store m ! a \<in> set (state_store m)" by simp
  moreover from assms(4) have "t \<in> set (transitions (state_store m ! a))" by simp
  ultimately have t: "t < length (transition_store m)"
    using w unfolding wf_machine_def by blast
  with default_guard_run[OF assms(2)] assms(1)
  have g: "validation (transition_store m ! t) = (\<lambda>_. True)" by simp
  then have "validation (transition_store m ! t) (values_fsm m')" by simp
  from update_fires[OF assms(1,3,4,5,6) this assms(7)] g show ?thesis by simp
qed

lemma from_fsm_appends:
  assumes w: "wf_machine m" and f: "from_fsm m n = (Inr t, m1)"
  shows "\<exists>a. getState m n = Inr (StateObj a) \<and>
           transitions (state_store m1 ! a) = transitions (state_store m ! a) @ [t] \<and>
           transition_store m1 ! t =
             \<lparr>validation = \<lambda>_. True, fromState = StateObj a, toState = JNull\<rparr>"
proof (cases "getState m n")
  case (Inl e)
  with f show ?thesis by (simp add: from_fsm_def)
next
  case (Inr v)
  show ?thesis
  proof (cases v)
    case (StateObj a)
    with getState_bound[OF w] Inr have a: "a < length (state_store m)" by blast
    from f Inr StateObj have
      "t = length (transition_store m)"
      "m1 = m\<lparr>transition_store := transition_store m @ [new_Transition\<lparr>fromState := v\<rparr>],
             state_store := (state_store m)[a := (state_store m ! a)
               \<lparr>transitions := transitions (state_store m ! a) @ [length (transition_store m)]\<rparr>]\<rparr>"
      by (auto simp: from_fsm_def Let_def)
    with a Inr StateObj show ?thesis by (simp add: new_Transition_def)
  qed (use f Inr in \<open>simp_all add: from_fsm_def\<close>)
qed

lemma to_missing:
  "states_get m missing = None \<Longrightarrow> to_transition m t missing = (Inl (StateNotFound missing), m)"
  by (simp add: to_transition_def getState_def)

text \<open>
  Claim C10, amended. When \<open>from(name)\<close> returns, the new transition is the last element
  of the transition list of its origin, with the guard that is always true and the
  destination \<open>null\<close>; a failed \<open>to(missing)\<close> leaves the machine as it was. While such a
  transition has its first guard and no destination, an evaluation pass that runs with
  its origin as the current state and finds no match among the transitions registered
  before it stops there: the call returns normally and the current state is unchanged,
  whatever transitions follow in the list.
\<close>

theorem half_built_transition_blocks:
  assumes "m = run ops"
  shows "(from_fsm m n = (Inr t0, m1) \<longrightarrow>
            (\<exists>a. getState m n = Inr (StateObj a) \<and>
               transitions (state_store m1 ! a) = transitions (state_store m ! a) @ [t0] \<and>
               transition_store m1 ! t0 =
                 \<lparr>validation = \<lambda>_. True, fromState = StateObj a, toState = JNull\<rparr>)) \<and>
         (states_get m missing = None \<longrightarrow>
            to_transition m t missing = (Inl (StateNotFound missing), m)) \<and>
         (currentState m = StateObj a \<and>
          transitions (state_store m ! a) = pre @ t # post \<and>
          validation (transition_store m ! t) = (\<lambda>_. True) \<and>
          toState (transition_store m ! t) = JNull \<and>
          ((r, m') = setProperty m key v \<or> (r, m') = setProperties m objects) \<and>
          (\<forall>u\<in>set pre. \<not> validation (transition_store m ! u) (values_fsm m')) \<longrightarrow>
            r = Inr () \<and> currentState m' = currentState m \<and>
            currentStateName m' = currentStateName m)"
proof -
  have w: "wf_machine m" using assms by (simp add: wf_run)
  show ?thesis
  proof (intro conjI impI)
    assume "from_fsm m n = (Inr t0, m1)"
    from from_fsm_appends[OF w this]
    show "\<exists>a. getState m n = Inr (StateObj a) \<and>
               transitions (state_store m1 ! a) = transitions (state_store m ! a) @ [t0] \<and>
               transition_store m1 ! t0 =
                 \<lparr>validation = \<lambda>_. True, fromState = StateObj a, toState = JNull\<rparr>" .
  next
    assume "states_get m missing = None"
    then show "to_transition m t missing = (Inl (StateNotFound missing), m)"
      by (rule to_missing)
  next
    assume h: "currentState m = StateObj a \<and>
          transitions (state_store m ! a) = pre @ t # post \<and>
          validation (transition_store m ! t) = (\<lambda>_. True) \<and>
          toState (transition_store m ! t) = JNull \<and>
          ((r, m') = setProperty m key v \<or> (r, m') = setProperties m objects) \<and>
          (\<forall>u\<in>set pre. \<not> validation (transition_store m ! u) (values_fsm m'))"
    then have "validation (transition_store m ! t) (values_fsm m')" by simp
    with h have *: "r = Inr () \<and> currentState m' = currentState m \<and>
        currentStateName m' = currentStateName m"
      by (intro update_blocked[of m a pre t post r m' key v objects]) blast+
    from * show "r = Inr ()" by blast
    from * show "currentState m' = currentState m" by blast
    from * show "currentStateName m' = currentStateName m" by blast
  qed
qed

lemma props_fold_bag_set:
  "k \<noteq> ''__proto__'' \<Longrightarrow>
     props (fold (\<lambda>key b. bag_set b key (f key)) ks b) k =
       (if k \<in> set ks then Some (f k) else props b k)"
  by (induction ks arbitrary: b) (auto simp: bag_set_def)

lemma props_write_all:
  assumes "k \<noteq> ''__proto__''" and "distinct (map fst objects)" and "(k, v) \<in> set objects"
  shows "props (write_all objects b) k = Some v"
proof -
  from assms(2,3) have "map_of objects k = Some v" by simp
  moreover from assms(3) have "k \<in> set (map fst objects)" by force
  ultimately show ?thesis
    using props_fold_bag_set[OF assms(1), of "object_get objects" "map fst objects" b]
    by (simp add: write_all_def object_get_def)
qed

text \<open>
  For every machine and every batch, \<open>setProperties\<close> is one evaluation pass on the bag
  in which all assignments have been made, and every entry whose key is not \<open>__proto__\<close>
  is an own property of that bag.
\<close>

lemma setProperties_writes_then_one_pass:
  assumes "distinct (map fst objects)"
  shows "setProperties m objects =
           updateInternalState (m\<lparr>values_fsm := write_all objects (values_fsm m)\<rparr>) \<and>
         values_fsm (snd (setProperties m objects)) = write_all objects (values_fsm m) \<and>
         (\<forall>(k, v) \<in> set objects. k \<noteq> ''__proto__'' \<longrightarrow>
            props (values_fsm (snd (setProperties m objects))) k = Some v)"
proof -
  have bg: "values_fsm (snd (setProperties m objects)) = write_all objects (values_fsm m)"
    by (simp add: setProperties_def values_updateInternalState)
  have "props (values_fsm (snd (setProperties m objects))) k = Some v"
    if "(k, v) \<in> set objects" "k \<noteq> ''__proto__''" for k v
    using props_write_all[OF that(2) assms that(1)] bg by simp
  with bg show ?thesis by (auto simp: setProperties_def)
qed

text \<open>
  A guard that requires two entries of the batch together, neither with the key
  \<open>__proto__\<close>, is true on that pass, whatever the bag held before the call.
\<close>

lemma conjunction_guard_fires:
  assumes "m = run ops"
    and "currentState m = StateObj a"
    and "transitions (state_store m ! a) = pre @ t # post"
    and "toState (transition_store m ! t) = StateObj b"
    and "distinct (map fst objects)"
    and "(ka, va) \<in> set objects" and "(kb, vb) \<in> set objects"
    and "ka \<noteq> ''__proto__''" and "kb \<noteq> ''__proto__''"
    and "\<forall>bg. validation (transition_store m ! t) bg =
           (props bg ka = Some va \<and> props bg kb = Some vb)"
    and "\<forall>u\<in>set pre. \<not> validation (transition_store m ! u) (write_all objects (values_fsm m))"
    and "(r, m') = setProperties m objects"
  shows "validation (transition_store m ! t) (values_fsm m') \<and>
         r = Inr () \<and> currentStateName m' = Inr (Some (name (state_store m ! b)))"
proof -
  from assms(12) have m': "m' = snd (setProperties m objects)" by (metis snd_conv)
  note w = setProperties_writes_then_one_pass[OF assms(5), of m]
  from w have bg: "values_fsm m' = write_all objects (values_fsm m)"
    unfolding m' by blast
  from w have wr: "\<forall>(k, v) \<in> set objects. k \<noteq> ''__proto__'' \<longrightarrow> props (values_fsm m') k = Some v"
    unfolding m' by blast
  from wr assms(6,8) have "props (values_fsm m') ka = Some va" by auto
  moreover from wr assms(7,9) have "props (values_fsm m') kb = Some vb" by auto
  ultimately have g: "validation (transition_store m ! t) (values_fsm m')"
    using assms(10) by simp
  from assms(12) have "(r, m') = setProperty m ka va \<or> (r, m') = setProperties m objects"
    by simp
  from update_fires[OF assms(1-4) this g] assms(11) bg g show ?thesis by simp
qed

text \<open>
  A name that was never registered and that the registry does not inherit (no State is
  named \<open>__proto__\<close>, and the name is no property of \<open>Object.prototype\<close>) is rejected by
  \<open>setCurrentState\<close>, \<open>from\<close> and \<open>Transition.to\<close> with the string
  \<open>State <name> not found\<close>, and the machine is left as it was.
\<close>

lemma unknown_plain_name_raises:
  assumes "n \<notin> set (addstate_names ops)" and "''__proto__'' \<notin> set (addstate_names ops)"
    and "n \<noteq> ''__proto__''" and "object_prototype_get n = None"
  shows "setCurrentState (run ops) n = (Inl (StateNotFound n), run ops) \<and>
         from_fsm (run ops) n = (Inl (StateNotFound n), run ops) \<and>
         to_transition (run ops) t n = (Inl (StateNotFound n), run ops)"
proof -
  let ?m = "run ops"
  have w: "wf_machine ?m" by (rule wf_run)
  then have r: "reg_ok (states_own ?m) (states_proto ?m) (map name (state_store ?m))"
    by (simp add: wf_machine_def)
  have "states_own ?m n = None"
  proof (rule ccontr)
    assume "states_own ?m n \<noteq> None"
    then obtain a where "states_own ?m n = Some a" by blast
    from reg_ok_ownD[OF r this] have "n \<in> set (map name (state_store ?m))"
      by (metis length_map nth_map nth_mem)
    with assms(1) show False by (simp add: names_run)
  qed
  moreover have "states_proto ?m = None"
  proof (rule ccontr)
    assume "states_proto ?m \<noteq> None"
    then obtain s where "states_proto ?m = Some s" by blast
    from reg_ok_protoD[OF r this] have "''__proto__'' \<in> set (map name (state_store ?m))"
      by (metis length_map nth_map nth_mem)
    with assms(2) show False by (simp add: names_run)
  qed
  ultimately have "states_get ?m n = None"
    using assms(3,4) by (simp add: states_get_def)
  then have "getState ?m n = Inl (StateNotFound n)" by (simp add: getState_def)
  then show ?thesis by (simp add: setCurrentState_def from_fsm_def to_transition_def)
qed

section \<open>A declared transition through the calls that follow\<close>

lemma run_append: "run (xs @ ys) = foldl exec (run xs) ys"
  by (simp add: run_def)

lemma addstate_names_append: "addstate_names (xs @ ys) = addstate_names xs @ addstate_names ys"
  by (simp add: addstate_names_def)

lemma transition_kept_exec:
  assumes "t < length (transition_store m)"
    and "\<forall>n. op \<noteq> To t n" and "\<forall>h. op \<noteq> When t h"
  shows "t < length (transition_store (exec m op)) \<and>
         transition_store (exec m op) ! t = transition_store m ! t"
proof (cases op)
  case (AddState n)
  with assms show ?thesis by (simp add: transition_store_addState)
next
  case (From n)
  with assms show ?thesis
    by (auto simp: from_fsm_def Let_def nth_append split: sum.splits jsval.splits)
next
  case (To t' n)
  with assms have "t' \<noteq> t" by blast
  with To assms show ?thesis
    by (auto simp: to_transition_def Let_def split: sum.splits)
next
  case (When t' h)
  with assms have "t' \<noteq> t" by blast
  with When assms show ?thesis by (simp add: when_transition_def Let_def)
next
  case (SetCurrentState n)
  with assms show ?thesis by (auto simp: setCurrentState_def split: sum.splits)
next
  case (SetProperty k v)
  with assms show ?thesis by (simp add: setProperty_def transition_store_updateInternalState)
next
  case (SetProperties kvs)
  with assms show ?thesis by (simp add: setProperties_def transition_store_updateInternalState)
qed

lemma transition_kept_foldl:
  assumes "t < length (transition_store m)"
    and "\<forall>n. To t n \<notin> set rest" and "\<forall>h. When t h \<notin> set rest"
  shows "t < length (transition_store (foldl exec m rest)) \<and>
         transition_store (foldl exec m rest) ! t = transition_store m ! t"
  using assms
proof (induction rest arbitrary: m)
  case Nil
  then show ?case by simp
next
  case (Cons op rest)
  from Cons.prems have "\<forall>n. op \<noteq> To t n" and "\<forall>h. op \<noteq> When t h" by auto
  from transition_kept_exec[OF Cons.prems(1) this]
  have 1: "t < length (transition_store (exec m op))"
    and 2: "transition_store (exec m op) ! t = transition_store m ! t"
    by blast+
  from Cons.prems have "\<forall>n. To t n \<notin> set rest" and "\<forall>h. When t h \<notin> set rest" by auto
  from Cons.IH[OF 1 this] 2 show ?case by simp
qed

lemma name_update_transitions:
  "a < length S \<Longrightarrow> name (S[x := (S ! x)\<lparr>transitions := ts\<rparr>] ! a) = name (S ! a)"
  by (cases "x = a") simp_all

lemma transitions_update_append:
  "a < length S \<Longrightarrow>
     set (transitions (S ! a)) \<subseteq>
       set (transitions (S[x := (S ! x)\<lparr>transitions := transitions (S ! x) @ [t]\<rparr>] ! a))"
  by (cases "x = a") auto

lemma state_kept_exec:
  assumes "a < length (state_store m)"
  shows "a < length (state_store (exec m op)) \<and>
         name (state_store (exec m op) ! a) = name (state_store m ! a) \<and>
         set (transitions (state_store m ! a)) \<subseteq> set (transitions (state_store (exec m op) ! a))"
proof (cases op)
  case (AddState n)
  with assms show ?thesis by (simp add: addState_def states_set_def Let_def nth_append)
next
  case (From n)
  with assms show ?thesis
    using transitions_update_append[OF assms]
    by (auto simp: from_fsm_def Let_def name_update_transitions split: sum.splits jsval.splits)
next
  case (To t n)
  with assms show ?thesis by (auto simp: to_transition_def Let_def split: sum.splits)
next
  case (When t h)
  with assms show ?thesis by (simp add: when_transition_def Let_def)
next
  case (SetCurrentState n)
  with assms show ?thesis by (auto simp: setCurrentState_def split: sum.splits)
next
  case (SetProperty k v)
  with assms show ?thesis by (simp add: setProperty_def state_store_updateInternalState)
next
  case (SetProperties kvs)
  with assms show ?thesis by (simp add: setProperties_def state_store_updateInternalState)
qed

lemma state_kept_foldl:
  assumes "a < length (state_store m)"
  shows "a < length (state_store (foldl exec m rest)) \<and>
         name (state_store (foldl exec m rest) ! a) = name (state_store m ! a) \<and>
         set (transitions (state_store m ! a)) \<subseteq>
           set (transitions (state_store (foldl exec m rest) ! a))"
  using assms
proof (induction rest arbitrary: m)
  case Nil
  then show ?case by simp
next
  case (Cons op rest)
  from state_kept_exec[OF Cons.prems, of op]
  have 1: "a < length (state_store (exec m op))"
    and 2: "name (state_store (exec m op) ! a) = name (state_store m ! a)"
    and 3: "set (transitions (state_store m ! a)) \<subseteq> set (transitions (state_store (exec m op) ! a))"
    by blast+
  from Cons.IH[OF 1] 2 3 show ?case by auto
qed

lemma registered_name:
  assumes w: "wf_machine m" and n: "n \<in> set (map name (state_store m))"
  shows "\<exists>b. getState m n = Inr (StateObj b) \<and> b < length (state_store m) \<and>
           name (state_store m ! b) = n"
proof -
  from n obtain a where a: "a < length (state_store m)" and "name (state_store m ! a) = n"
    by (auto simp: in_set_conv_nth)
  with getState_registered[OF w a] show ?thesis by auto
qed

lemma count_list_one_unique:
  assumes "count_list xs x = 1" and "i < length xs" and "j < length xs"
    and "xs ! i = x" and "xs ! j = x"
  shows "i = j"
  using assms
proof (induction xs arbitrary: i j)
  case Nil
  then show ?case by simp
next
  case (Cons y ys)
  show ?case
  proof (cases "y = x")
    case True
    with Cons.prems(1) have "count_list ys x = 0" by simp
    then have notin: "x \<notin> set ys" by (simp add: count_list_0_iff)
    have "i = 0"
    proof (rule ccontr)
      assume "i \<noteq> 0"
      then obtain i' where "i = Suc i'" by (cases i) auto
      with Cons.prems(2,4) have "ys ! i' = x" "i' < length ys" by auto
      with notin show False by (metis nth_mem)
    qed
    moreover have "j = 0"
    proof (rule ccontr)
      assume "j \<noteq> 0"
      then obtain j' where "j = Suc j'" by (cases j) auto
      with Cons.prems(3,5) have "ys ! j' = x" "j' < length ys" by auto
      with notin show False by (metis nth_mem)
    qed
    ultimately show ?thesis by simp
  next
    case False
    with Cons.prems(1) have c: "count_list ys x = 1" by simp
    from False Cons.prems(4) obtain i' where i: "i = Suc i'" by (cases i) auto
    from False Cons.prems(5) obtain j' where j: "j = Suc j'" by (cases j) auto
    from Cons.IH[OF c, of i' j'] Cons.prems i j show ?thesis by auto
  qed
qed

lemma from_fsm_result:
  assumes w: "wf_machine m" and f: "fst (from_fsm m n) = Inr t"
  shows "\<exists>a. a < length (state_store m) \<and> name (state_store m ! a) = n \<and>
           a < length (state_store (snd (from_fsm m n))) \<and>
           t \<in> set (transitions (state_store (snd (from_fsm m n)) ! a)) \<and>
           t < length (transition_store (snd (from_fsm m n))) \<and>
           transition_store (snd (from_fsm m n)) ! t =
             \<lparr>validation = \<lambda>_. True, fromState = StateObj a, toState = JNull\<rparr>"
proof -
  from f have "from_fsm m n = (Inr t, snd (from_fsm m n))" by (metis prod.collapse)
  from from_fsm_appends[OF w this] obtain a where
    g: "getState m n = Inr (StateObj a)"
    and ts: "transitions (state_store (snd (from_fsm m n)) ! a) = transitions (state_store m ! a) @ [t]"
    and tr: "transition_store (snd (from_fsm m n)) ! t =
             \<lparr>validation = \<lambda>_. True, fromState = StateObj a, toState = JNull\<rparr>"
    by blast
  from getState_bound[OF w g] have a: "a < length (state_store m)" "name (state_store m ! a) = n"
    by blast+
  from g f have "t = length (transition_store m)"
    and "length (transition_store (snd (from_fsm m n))) = Suc (length (transition_store m))"
    and "length (state_store (snd (from_fsm m n))) = length (state_store m)"
    by (auto simp: from_fsm_def Let_def)
  with a ts tr show ?thesis by auto
qed

text \<open>
  Claim C1, amended. Let \<open>from(A)\<close> return the builder \<open>t\<close>, let \<open>B\<close> be a registered
  name, and let the calls \<open>t.to(B)\<close> and \<open>t.when(g)\<close> follow, and after them any calls
  that do not use \<open>t\<close> again. Let \<open>A\<close> have been passed to \<open>addState\<close> only once in
  the whole sequence. If the current state is then the State \<open>A\<close>, \<open>g\<close> is true on the
  property bag after the update and the guard of every transition that stands before \<open>t\<close>
  in the list of \<open>A\<close> is false on that bag, then the transition still carries \<open>g\<close>,
  \<open>setProperty\<close> and \<open>setProperties\<close> return normally and the name of the current
  state is \<open>B\<close> afterwards.
\<close>

theorem declared_transition_fires:
  assumes "fst (from_fsm (run ops) A) = Inr t"
    and "B \<in> set (addstate_names ops)"
    and "m = run (ops @ From A # To t B # When t g # rest)"
    and "\<forall>n. To t n \<notin> set rest" and "\<forall>h. When t h \<notin> set rest"
    and "count_list (addstate_names (ops @ rest)) A = 1"
    and "currentState m = StateObj a" and "name (state_store m ! a) = A"
    and "(r, m') = setProperty m key v \<or> (r, m') = setProperties m objects"
    and "g (values_fsm m')"
    and "\<forall>u\<in>set (takeWhile (\<lambda>u. u \<noteq> t) (transitions (state_store m ! a))).
           \<not> validation (transition_store m ! u) (values_fsm m')"
  shows "validation (transition_store m ! t) = g \<and>
         r = Inr () \<and> currentStateName m' = Inr (Some B)"
proof -
  let ?m0 = "run ops"
  let ?m1 = "snd (from_fsm ?m0 A)"
  let ?m2 = "snd (to_transition ?m1 t B)"
  let ?m3 = "when_transition ?m2 t g"
  have m: "m = foldl exec ?m3 rest" using assms(3) by (simp add: run_append)
  have m1: "?m1 = run (ops @ [From A])" by (simp add: run_append)
  have w0: "wf_machine ?m0" by (rule wf_run)
  have w1: "wf_machine ?m1" unfolding m1 by (rule wf_run)
  have w: "wf_machine m" unfolding assms(3) by (rule wf_run)
  from from_fsm_result[OF w0 assms(1)] obtain af where
    af: "af < length (state_store ?m1)"
    and afn0: "af < length (state_store ?m0)" "name (state_store ?m0 ! af) = A"
    and tin: "t \<in> set (transitions (state_store ?m1 ! af))"
    and tlen: "t < length (transition_store ?m1)"
    by blast
  have names1: "map name (state_store ?m1) = addstate_names ops"
    unfolding m1 by (simp add: names_run addstate_names_append addstate_names_def)
  with afn0 af have afn: "name (state_store ?m1 ! af) = A"
    by (metis names_run nth_map)
  from names1 assms(2) have "B \<in> set (map name (state_store ?m1))" by simp
  from registered_name[OF w1 this] obtain b where
    gb: "getState ?m1 B = Inr (StateObj b)"
    and b: "b < length (state_store ?m1)" and bn: "name (state_store ?m1 ! b) = B"
    by blast
  from gb tlen have t3: "t < length (transition_store ?m3)"
    and v3: "validation (transition_store ?m3 ! t) = g"
    and d3: "toState (transition_store ?m3 ! t) = StateObj b"
    and s3: "state_store ?m3 = state_store ?m1"
    by (simp_all add: to_transition_def when_transition_def Let_def)
  from transition_kept_foldl[OF t3 assms(4,5)] m v3 d3
  have v: "validation (transition_store m ! t) = g"
    and d: "toState (transition_store m ! t) = StateObj b"
    by simp_all
  from af s3 have "af < length (state_store ?m3)" by simp
  from state_kept_foldl[OF this, of rest] m s3 afn tin
  have af': "af < length (state_store m)" and afn': "name (state_store m ! af) = A"
    and tin': "t \<in> set (transitions (state_store m ! af))"
    by auto
  from b s3 have "b < length (state_store ?m3)" by simp
  from state_kept_foldl[OF this, of rest] m s3 bn
  have bn': "name (state_store m ! b) = B" by auto
  from w assms(7) have a: "a < length (state_store m)" by (simp add: wf_machine_def)
  have names: "map name (state_store m) = addstate_names (ops @ rest)"
    unfolding assms(3) by (simp add: names_run addstate_names_append addstate_names_def)
  from names assms(6) have c: "count_list (map name (state_store m)) A = 1" by simp
  have "a = af"
  proof (rule count_list_one_unique[OF c])
    show "a < length (map name (state_store m))" using a by simp
    show "af < length (map name (state_store m))" using af' by simp
    show "map name (state_store m) ! a = A" using a assms(8) by simp
    show "map name (state_store m) ! af = A" using af' afn' by simp
  qed
  with tin' have tin'': "t \<in> set (transitions (state_store m ! a))" by simp
  let ?xs = "transitions (state_store m ! a)"
  let ?pre = "takeWhile (\<lambda>u. u \<noteq> t) ?xs"
  from tin'' have "dropWhile (\<lambda>u. u \<noteq> t) ?xs \<noteq> []" by simp
  then obtain post where "dropWhile (\<lambda>u. u \<noteq> t) ?xs = t # post"
    by (metis (mono_tags, lifting) hd_dropWhile list.collapse)
  then have dec: "?xs = ?pre @ t # post" by (metis takeWhile_dropWhile_id)
  from assms(10) v have gv: "validation (transition_store m ! t) (values_fsm m')" by simp
  from update_fires[OF assms(3,7) dec d assms(9) gv assms(11)] bn' v
  show ?thesis by simp
qed

section \<open>The claims on the example machines\<close>

lemmas fsm_defs =
  run_def addState_def states_set_def from_fsm_def to_transition_def when_transition_def
  setCurrentState_def getState_def states_get_def setProperty_def setProperties_def
  updateInternalState_def checkForTransitions_def currentStateName_def
  new_FiniteStateMachine_def new_Transition_def bag_set_def object_prototype_get_def
  object_prototype_methods_def state_get_def write_all_def object_get_def Let_def

theorem declared_transition_fires_witness:
  "validation (transition_store (run two_ops) ! 1) = flag_known \<and>
   transitions (state_store (run two_ops) ! 0) = [0, 1] \<and>
   \<not> flag_on (values_fsm (snd (setProperty (run two_ops) ''x'' (PBool False)))) \<and>
   currentStateName (run two_ops) = Inr (Some ''A'') \<and>
   fst (setProperty (run two_ops) ''x'' (PBool False)) = Inr () \<and>
   currentStateName (snd (setProperty (run two_ops) ''x'' (PBool False))) = Inr (Some ''C'')"
proof -
  let ?ops = "[AddState ''A'', AddState ''B'', AddState ''C'',
               From ''A'', To 0 ''B'', When 0 flag_on]"
  let ?rest = "[SetCurrentState ''A'']"
  let ?m = "run two_ops"
  let ?c = "setProperty ?m ''x'' (PBool False)"
  have f: "fst (from_fsm (run ?ops) ''A'') = Inr 1" by (simp add: fsm_defs)
  have b: "''C'' \<in> set (addstate_names ?ops)" by (simp add: addstate_names_def)
  have m: "?m = run (?ops @ From ''A'' # To 1 ''C'' # When 1 flag_known # ?rest)"
    by (simp add: two_ops_def)
  have nt: "\<forall>n. To 1 n \<notin> set ?rest" and nw: "\<forall>h. When 1 h \<notin> set ?rest" by simp_all
  have once: "count_list (addstate_names (?ops @ ?rest)) ''A'' = 1"
    by (simp add: addstate_names_def)
  have cur: "currentState ?m = StateObj 0" by (simp add: fsm_defs two_ops_def)
  have nm: "name (state_store ?m ! 0) = ''A''" by (simp add: fsm_defs two_ops_def)
  have upd: "(fst ?c, snd ?c) = setProperty ?m ''x'' (PBool False) \<or>
             (fst ?c, snd ?c) = setProperties ?m []"
    by simp
  have g: "flag_known (values_fsm (snd ?c))" by (simp add: fsm_defs two_ops_def flag_known_def)
  have ts: "transitions (state_store ?m ! 0) = [0, 1]" by (simp add: fsm_defs two_ops_def)
  have off: "\<not> flag_on (values_fsm (snd ?c))" by (simp add: fsm_defs two_ops_def flag_on_def)
  have v0: "validation (transition_store ?m ! 0) = flag_on" by (simp add: fsm_defs two_ops_def)
  have pre: "\<forall>u\<in>set (takeWhile (\<lambda>u. u \<noteq> 1) (transitions (state_store ?m ! 0))).
      \<not> validation (transition_store ?m ! u) (values_fsm (snd ?c))"
    using off v0 by (simp add: ts)
  have before: "currentStateName ?m = Inr (Some ''A'')" by (simp add: fsm_defs two_ops_def)
  from declared_transition_fires[OF f b m nt nw once cur nm upd g pre] before ts off
  show ?thesis by blast
qed

text \<open>
  Claim C1 as stated fails when the origin is registered again after the declaration:
  \<open>addState('Idle')\<close> replaces the State that holds the transition by a new one without
  transitions, so with \<open>Idle\<close> current and the guard true on the bag the machine stays
  in \<open>Idle\<close>.
\<close>

theorem reregistered_origin_keeps_state:
  "fst (from_fsm (run [AddState ''Idle'', AddState ''Running'']) ''Idle'') = Inr 0 \<and>
   rereg_ops = [AddState ''Idle'', AddState ''Running''] @
     From ''Idle'' # To 0 ''Running'' # When 0 moving # [AddState ''Idle'', SetCurrentState ''Idle''] \<and>
   length (transition_store (run rereg_ops)) = 1 \<and>
   currentStateName (run rereg_ops) = Inr (Some ''Idle'') \<and>
   moving (values_fsm (snd (setProperty (run rereg_ops) ''velocityX'' (PNum 5)))) \<and>
   fst (setProperty (run rereg_ops) ''velocityX'' (PNum 5)) = Inr () \<and>
   currentStateName (snd (setProperty (run rereg_ops) ''velocityX'' (PNum 5))) =
     Inr (Some ''Idle'')"
  by (simp add: fsm_defs rereg_ops_def moving_def)

theorem first_match_wins_witness:
  "fst (setProperty (run two_ops) ''x'' (PBool True)) = Inr () \<and>
   flag_on (values_fsm (snd (setProperty (run two_ops) ''x'' (PBool True)))) \<and>
   flag_known (values_fsm (snd (setProperty (run two_ops) ''x'' (PBool True)))) \<and>
   currentStateName (snd (setProperty (run two_ops) ''x'' (PBool True))) = Inr (Some ''B'') \<and>
   currentStateName (snd (setProperty (run two_ops) ''x'' (PBool True))) \<noteq> Inr (Some ''C'')"
proof -
  let ?m = "run two_ops"
  let ?c = "setProperty ?m ''x'' (PBool True)"
  have cur: "currentState ?m = StateObj 0" by (simp add: fsm_defs two_ops_def)
  have ts: "transitions (state_store ?m ! 0) = [] @ 0 # [] @ 1 # []"
    by (simp add: fsm_defs two_ops_def)
  have d1: "toState (transition_store ?m ! 0) = StateObj 1" by (simp add: fsm_defs two_ops_def)
  have d2: "toState (transition_store ?m ! 1) = StateObj 2" by (simp add: fsm_defs two_ops_def)
  have upd: "(fst ?c, snd ?c) = setProperty ?m ''x'' (PBool True) \<or>
             (fst ?c, snd ?c) = setProperties ?m []"
    by simp
  have v1: "validation (transition_store ?m ! 0) = flag_on" by (simp add: fsm_defs two_ops_def)
  have v2: "validation (transition_store ?m ! 1) = flag_known" by (simp add: fsm_defs two_ops_def)
  have f1: "flag_on (values_fsm (snd ?c))" by (simp add: fsm_defs two_ops_def flag_on_def)
  have f2: "flag_known (values_fsm (snd ?c))" by (simp add: fsm_defs two_ops_def flag_known_def)
  have g1: "validation (transition_store ?m ! 0) (values_fsm (snd ?c))" using f1 v1 by simp
  have g2: "validation (transition_store ?m ! 1) (values_fsm (snd ?c))" using f2 v2 by simp
  have pre: "\<forall>u\<in>set []. \<not> validation (transition_store ?m ! u) (values_fsm (snd ?c))"
    by simp
  have n1: "name (state_store ?m ! 1) = ''B''" by (simp add: fsm_defs two_ops_def)
  have n2: "name (state_store ?m ! 2) = ''C''" by (simp add: fsm_defs two_ops_def)
  from first_match_wins[OF refl cur ts d1 d2 upd g1 g2 pre] n1 n2 f1 f2
  show ?thesis by simp
qed

text \<open>
  Claim C2 as stated fails in two ways. With a third transition \<open>A \<rightarrow> D\<close> registered
  before \<open>A \<rightarrow> B\<close> and \<open>A \<rightarrow> C\<close> and all three guards true, the pass ends in \<open>D\<close>,
  which is the destination of neither. With two transitions \<open>A \<rightarrow> B\<close> whose guards are
  both true, the pass ends in the State that is also the destination of the second.
\<close>

theorem earlier_match_beats_both:
  "transitions (state_store (run three_ops) ! 0) = [0, 1, 2] \<and>
   toState (transition_store (run three_ops) ! 1) = StateObj 1 \<and>
   name (state_store (run three_ops) ! 1) = ''B'' \<and>
   toState (transition_store (run three_ops) ! 2) = StateObj 2 \<and>
   validation (transition_store (run three_ops) ! 1)
     (values_fsm (snd (setProperty (run three_ops) ''x'' (PBool True)))) \<and>
   validation (transition_store (run three_ops) ! 2)
     (values_fsm (snd (setProperty (run three_ops) ''x'' (PBool True)))) \<and>
   currentStateName (snd (setProperty (run three_ops) ''x'' (PBool True))) = Inr (Some ''D'') \<and>
   transitions (state_store (run same_dest_ops) ! 0) = [0, 1] \<and>
   toState (transition_store (run same_dest_ops) ! 1) = StateObj 1 \<and>
   validation (transition_store (run same_dest_ops) ! 0)
     (values_fsm (snd (setProperty (run same_dest_ops) ''x'' (PBool True)))) \<and>
   validation (transition_store (run same_dest_ops) ! 1)
     (values_fsm (snd (setProperty (run same_dest_ops) ''x'' (PBool True)))) \<and>
   currentState (snd (setProperty (run same_dest_ops) ''x'' (PBool True))) = StateObj 1"
  by (simp add: fsm_defs three_ops_def same_dest_ops_def flag_on_def flag_known_def)

theorem no_match_keeps_state_witness:
  "fst (setProperty (run demo_ops) ''velocityX'' (PNum 0)) = Inr () \<and>
   currentStateName (snd (setProperty (run demo_ops) ''velocityX'' (PNum 0))) =
     currentStateName (run demo_ops) \<and>
   currentState (snd (setProperty (run demo_ops) ''velocityX'' (PNum 0))) = StateObj 0"
proof -
  let ?m = "run demo_ops"
  let ?c = "setProperty ?m ''velocityX'' (PNum 0)"
  have cur: "currentState ?m = StateObj 0" by (simp add: fsm_defs demo_ops_def)
  have upd: "(fst ?c, snd ?c) = setProperty ?m ''velocityX'' (PNum 0) \<or>
             (fst ?c, snd ?c) = setProperties ?m []"
    by simp
  have none: "\<forall>u\<in>set (transitions (state_store ?m ! 0)).
      \<not> validation (transition_store ?m ! u) (values_fsm (snd ?c))"
    by (simp add: fsm_defs demo_ops_def moving_def)
  from no_match_keeps_state[OF cur upd none] cur show ?thesis by simp
qed

theorem isOneOf_iff_current_name_witness:
  "currentStateName (run demo_ops) = Inr (Some ''Idle'') \<and>
   isOneOf (run demo_ops) [''Running'', ''Idle''] = Inr True \<and>
   isOneOf (run demo_ops) [''Running'', ''Crouched''] = Inr False"
proof -
  let ?m = "run demo_ops"
  have cur: "currentState ?m \<noteq> JNull" by (simp add: fsm_defs demo_ops_def)
  have nm: "currentStateName ?m = Inr (Some ''Idle'')" by (simp add: fsm_defs demo_ops_def)
  from isOneOf_iff_current_name[OF cur, of "[''Running'', ''Idle'']"] nm
  have 1: "isOneOf ?m [''Running'', ''Idle''] = Inr True" by auto
  from isOneOf_iff_current_name[OF cur, of "[''Running'', ''Crouched'']"] nm
  have 2: "isOneOf ?m [''Running'', ''Crouched''] = Inr False" by auto
  from nm 1 2 show ?thesis by simp
qed

theorem no_current_state_raises_witness:
  "currentStateName (run setup_ops) = Inl TypeError \<and>
   fst (setProperty (run setup_ops) ''velocityX'' (PNum 5)) = Inl TypeError \<and>
   fst (setProperties (run setup_ops) [(''isOnFloor'', PBool True)]) = Inl TypeError"
proof -
  have "\<forall>n. SetCurrentState n \<notin> set setup_ops" by (simp add: setup_ops_def)
  from no_current_state_raises[OF this] show ?thesis .
qed

lemma batch_example:
  "\<not> both_set (values_fsm (run batch_ops)) \<and>
   fst (setProperties (run batch_ops) [(''a'', PNum 1), (''b'', PNum 2)]) = Inr () \<and>
   props (values_fsm (snd (setProperties (run batch_ops) [(''a'', PNum 1), (''b'', PNum 2)]))) ''a''
     = Some (PNum 1) \<and>
   props (values_fsm (snd (setProperties (run batch_ops) [(''a'', PNum 1), (''b'', PNum 2)]))) ''b''
     = Some (PNum 2) \<and>
   currentStateName (snd (setProperties (run batch_ops) [(''a'', PNum 1), (''b'', PNum 2)]))
     = Inr (Some ''B'')"
proof -
  let ?m = "run batch_ops"
  let ?o = "[(''a'', PNum 1), (''b'', PNum 2)]"
  let ?c = "setProperties ?m ?o"
  have cur: "currentState ?m = StateObj 0" by (simp add: fsm_defs batch_ops_def)
  have ts: "transitions (state_store ?m ! 0) = [] @ 0 # []" by (simp add: fsm_defs batch_ops_def)
  have dest: "toState (transition_store ?m ! 0) = StateObj 1"
    by (simp add: fsm_defs batch_ops_def)
  have nm: "name (state_store ?m ! 1) = ''B''" by (simp add: fsm_defs batch_ops_def)
  have d: "distinct (map fst ?o)" by simp
  have ea: "(''a'', PNum 1) \<in> set ?o" and eb: "(''b'', PNum 2) \<in> set ?o" by simp_all
  have ka: "''a'' \<noteq> ''__proto__''" and kb: "''b'' \<noteq> ''__proto__''" by simp_all
  have g: "\<forall>bg. validation (transition_store ?m ! 0) bg =
      (props bg ''a'' = Some (PNum 1) \<and> props bg ''b'' = Some (PNum 2))"
    by (simp add: fsm_defs batch_ops_def both_set_def)
  have pre: "\<forall>u\<in>set []. \<not> validation (transition_store ?m ! u) (write_all ?o (values_fsm ?m))"
    by simp
  have upd: "(fst ?c, snd ?c) = setProperties ?m ?o" by simp
  have before: "\<not> both_set (values_fsm ?m)" by (simp add: fsm_defs batch_ops_def both_set_def)
  note h = conjunction_guard_fires[OF refl cur ts dest d ea eb ka kb g pre upd]
  from h have r: "fst ?c = Inr ()" by blast
  from h have "currentStateName (snd ?c) = Inr (Some (name (state_store ?m ! 1)))" by blast
  then have n: "currentStateName (snd ?c) = Inr (Some ''B'')" by (simp only: nm)
  from setProperties_writes_then_one_pass[OF d, of ?m]
  have w: "\<forall>(k, v) \<in> set ?o. k \<noteq> ''__proto__'' \<longrightarrow> props (values_fsm (snd ?c)) k = Some v"
    by blast
  from w have wa: "props (values_fsm (snd ?c)) ''a'' = Some (PNum 1)" by auto
  from w have wb: "props (values_fsm (snd ?c)) ''b'' = Some (PNum 2)" by auto
  from before r wa wb n show ?thesis by blast
qed

text \<open>
  One pass after the batch is not one pass per entry: with \<open>A \<rightarrow> B\<close> guarded by \<open>a\<close>
  and \<open>B \<rightarrow> C\<close> guarded by \<open>b\<close>, the batch stops in \<open>B\<close>, two single updates reach \<open>C\<close>.
\<close>

lemma per_entry_passes_differ:
  "currentStateName (snd (setProperties (run cascade_ops) [(''a'', PNum 1), (''b'', PNum 2)]))
     = Inr (Some ''B'') \<and>
   currentStateName (snd (setProperty (snd (setProperty (run cascade_ops) ''a'' (PNum 1)))
     ''b'' (PNum 2))) = Inr (Some ''C'')"
  by (simp add: fsm_defs cascade_ops_def a_set_def b_set_def)

text \<open>
  Claim C3 does not hold for an entry with the key \<open>__proto__\<close>. The loop of
  \<open>setProperties\<close> assigns \<open>values[key] = objects[key]\<close> for every key, and on the plain
  object \<open>values\<close> the assignment \<open>values['__proto__'] = 1\<close> reaches the setter of
  \<open>Object.prototype\<close> and stores nothing: after the batch the entry is not in the bag,
  the guard that requires this entry and the entry \<open>b\<close> is false on the pass, and the
  machine stays in \<open>A\<close>.
\<close>

theorem proto_entry_not_written:
  "validation (transition_store (run proto_ops) ! 0) = proto_and_b \<and>
   currentStateName (run proto_ops) = Inr (Some ''A'') \<and>
   props (values_fsm (snd (setProperties (run proto_ops)
     [(''__proto__'', PNum 1), (''b'', PNum 2)]))) ''__proto__'' = None \<and>
   \<not> proto_and_b (values_fsm (snd (setProperties (run proto_ops)
     [(''__proto__'', PNum 1), (''b'', PNum 2)]))) \<and>
   currentStateName (snd (setProperties (run proto_ops)
     [(''__proto__'', PNum 1), (''b'', PNum 2)])) = Inr (Some ''A'')"
  by (simp add: fsm_defs proto_ops_def proto_and_b_def)

text \<open>
  Claim C5 does not hold for the names that the registry inherits from
  \<open>Object.prototype\<close>. On a machine whose only State is \<open>Idle\<close>, the name
  \<open>constructor\<close> was never registered, yet \<open>setCurrentState('constructor')\<close> returns
  normally and replaces the current state by the built-in function \<open>Object\<close>,
  \<open>Transition.to('constructor')\<close> returns normally and binds that function as the
  destination, and \<open>from('constructor')\<close> throws a \<open>TypeError\<close> instead of the string of
  \<open>getState\<close>.
\<close>

theorem inherited_name_not_rejected:
  "''constructor'' \<notin> set (addstate_names started_ops) \<and>
   currentState (run started_ops) = StateObj 0 \<and>
   setCurrentState (run started_ops) ''constructor'' =
     (Inr (), (run started_ops)\<lparr>currentState := BuiltinFunction ''Object''\<rparr>) \<and>
   currentStateName (snd (setCurrentState (run started_ops) ''constructor'')) =
     Inr (Some ''Object'') \<and>
   fst (to_transition (run started_ops) 0 ''constructor'') = Inr 0 \<and>
   toState (transition_store (snd (to_transition (run started_ops) 0 ''constructor'')) ! 0) =
     BuiltinFunction ''Object'' \<and>
   from_fsm (run started_ops) ''constructor'' = (Inl TypeError, run started_ops)"
  by (simp add: fsm_defs started_ops_def addstate_names_def)

lemma unknown_plain_name_raises_example:
  "setCurrentState (run started_ops) ''missing'' = (Inl (StateNotFound ''missing''), run started_ops) \<and>
   from_fsm (run started_ops) ''missing'' = (Inl (StateNotFound ''missing''), run started_ops) \<and>
   to_transition (run started_ops) 0 ''missing'' = (Inl (StateNotFound ''missing''), run started_ops)"
proof -
  have 1: "''missing'' \<notin> set (addstate_names started_ops)"
    and 2: "''__proto__'' \<notin> set (addstate_names started_ops)"
    by (simp_all add: started_ops_def addstate_names_def)
  have 3: "''missing'' \<noteq> ''__proto__''" by simp
  have 4: "object_prototype_get ''missing'' = None"
    by (simp add: object_prototype_get_def object_prototype_methods_def)
  from unknown_plain_name_raises[OF 1 2 3 4] show ?thesis .
qed

theorem unconditional_transition_fires_witness:
  "validation (transition_store (run uncond_ops) ! 1) = (\<lambda>_. True) \<and>
   fst (setProperty (run uncond_ops) ''x'' (PBool False)) = Inr () \<and>
   currentStateName (snd (setProperty (run uncond_ops) ''x'' (PBool False))) = Inr (Some ''C'')"
proof -
  let ?m = "run uncond_ops"
  let ?c = "setProperty ?m ''x'' (PBool False)"
  have nw: "\<forall>g. When 1 g \<notin> set uncond_ops" by (simp add: uncond_ops_def)
  have cur: "currentState ?m = StateObj 0" by (simp add: fsm_defs uncond_ops_def)
  have ts: "transitions (state_store ?m ! 0) = [0] @ 1 # []"
    by (simp add: fsm_defs uncond_ops_def)
  have dest: "toState (transition_store ?m ! 1) = StateObj 2"
    by (simp add: fsm_defs uncond_ops_def)
  have nm: "name (state_store ?m ! 2) = ''C''" by (simp add: fsm_defs uncond_ops_def)
  have upd: "(fst ?c, snd ?c) = setProperty ?m ''x'' (PBool False) \<or>
             (fst ?c, snd ?c) = setProperties ?m []"
    by simp
  have pre: "\<forall>u\<in>set [0]. \<not> validation (transition_store ?m ! u) (values_fsm (snd ?c))"
    by (simp add: fsm_defs uncond_ops_def flag_on_def)
  from unconditional_transition_fires[OF refl nw cur ts dest upd pre] nm
  show ?thesis by simp
qed

text \<open>
  Claim C6 as stated fails when an earlier transition of the same origin matches: the
  transition \<open>A \<rightarrow> C\<close> has no guard and a bound destination, \<open>A\<close> is current, and the
  pass takes \<open>A \<rightarrow> B\<close>, registered before it.
\<close>

theorem unconditional_transition_preempted:
  "(\<forall>g. When 1 g \<notin> set uncond_ops) \<and>
   validation (transition_store (run uncond_ops) ! 1) = (\<lambda>_. True) \<and>
   currentState (run uncond_ops) = StateObj 0 \<and>
   transitions (state_store (run uncond_ops) ! 0) = [0, 1] \<and>
   toState (transition_store (run uncond_ops) ! 1) = StateObj 2 \<and>
   name (state_store (run uncond_ops) ! 2) = ''C'' \<and>
   fst (setProperty (run uncond_ops) ''x'' (PBool True)) = Inr () \<and>
   currentStateName (snd (setProperty (run uncond_ops) ''x'' (PBool True))) = Inr (Some ''B'')"
  by (simp add: fsm_defs uncond_ops_def flag_on_def)

theorem current_state_registered_witness:
  "currentState (run demo_ops) = StateObj 0 \<and>
   name (state_store (run demo_ops) ! 0) = ''Idle'' \<and>
   states_get (run demo_ops) ''Idle'' = Some (StateObj 0)"
proof -
  let ?m = "run demo_ops"
  have cur: "currentState ?m = StateObj 0" by (simp add: fsm_defs demo_ops_def)
  have nm: "name (state_store ?m ! 0) = ''Idle''" by (simp add: fsm_defs demo_ops_def)
  have d: "distinct (addstate_names demo_ops)" by (simp add: demo_ops_def addstate_names_def)
  from current_state_registered[OF cur] d nm cur show ?thesis by simp
qed

text \<open>
  Claim C7 as stated fails when a name is registered again: after \<open>addState('A')\<close>,
  \<open>setCurrentState('A')\<close>, \<open>addState('A')\<close> the current state is the first State object
  and the registry holds the second one under \<open>A\<close>.
\<close>

theorem reregistered_current_state:
  "currentState (run dup_ops) = StateObj 0 \<and>
   name (state_store (run dup_ops) ! 0) = ''A'' \<and>
   states_get (run dup_ops) ''A'' = Some (StateObj 1) \<and>
   StateObj 0 \<noteq> StateObj 1"
  by (simp add: fsm_defs dup_ops_def)

theorem half_built_transition_blocks_witness:
  "transitions (state_store (snd (from_fsm (run half_ops) ''A'')) ! 0) = [0, 1, 2] \<and>
   transition_store (snd (from_fsm (run half_ops) ''A'')) ! 2 =
     \<lparr>validation = \<lambda>_. True, fromState = StateObj 0, toState = JNull\<rparr> \<and>
   to_transition (run half_ops) 1 ''missing'' = (Inl (StateNotFound ''missing''), run half_ops) \<and>
   fst (setProperty (run half_ops) ''x'' (PBool False)) = Inr () \<and>
   currentStateName (snd (setProperty (run half_ops) ''x'' (PBool False))) = Inr (Some ''A'')"
proof -
  let ?m = "run half_ops"
  let ?f = "from_fsm ?m ''A''"
  let ?c = "setProperty ?m ''x'' (PBool False)"
  have f: "?f = (Inr 2, snd ?f)" by (simp add: fsm_defs half_ops_def)
  have g: "getState ?m ''A'' = Inr (StateObj 0)" by (simp add: fsm_defs half_ops_def)
  have old: "transitions (state_store ?m ! 0) = [0, 1]" by (simp add: fsm_defs half_ops_def)
  have miss: "states_get ?m ''missing'' = None" by (simp add: fsm_defs half_ops_def)
  have pass: "currentState ?m = StateObj 0 \<and>
      transitions (state_store ?m ! 0) = [0] @ 1 # [] \<and>
      validation (transition_store ?m ! 1) = (\<lambda>_. True) \<and>
      toState (transition_store ?m ! 1) = JNull \<and>
      ((fst ?c, snd ?c) = setProperty ?m ''x'' (PBool False) \<or>
       (fst ?c, snd ?c) = setProperties ?m []) \<and>
      (\<forall>u\<in>set [0]. \<not> validation (transition_store ?m ! u) (values_fsm (snd ?c)))"
    by (simp add: fsm_defs half_ops_def flag_on_def)
  have before: "currentStateName ?m = Inr (Some ''A'')" by (simp add: fsm_defs half_ops_def)
  note h = half_built_transition_blocks[OF refl, of half_ops "''A''" 2 "snd ?f" "''missing''" 1
      0 "[0]" "[]" "fst ?c" "snd ?c" "''x''" "PBool False" "[]"]
  from h f g old have 1: "transitions (state_store (snd ?f) ! 0) = [0, 1, 2] \<and>
      transition_store (snd ?f) ! 2 =
        \<lparr>validation = \<lambda>_. True, fromState = StateObj 0, toState = JNull\<rparr>"
    by auto
  from h miss have 2: "to_transition ?m 1 ''missing'' = (Inl (StateNotFound ''missing''), ?m)"
    by blast
  from h pass before have 3: "fst ?c = Inr () \<and> currentStateName (snd ?c) = Inr (Some ''A'')"
    by simp
  from 1 2 3 show ?thesis by blast
qed

text \<open>
  Claim C10 as stated fails when a transition registered before the half-built one
  matches: the pass takes that transition and the current state changes from \<open>A\<close> to
  \<open>B\<close>.
\<close>

theorem half_built_transition_skipped:
  "transitions (state_store (run half_ops) ! 0) = [0, 1] \<and>
   validation (transition_store (run half_ops) ! 1) = (\<lambda>_. True) \<and>
   toState (transition_store (run half_ops) ! 1) = JNull \<and>
   currentStateName (run half_ops) = Inr (Some ''A'') \<and>
   fst (setProperty (run half_ops) ''x'' (PBool True)) = Inr () \<and>
   currentStateName (snd (setProperty (run half_ops) ''x'' (PBool True))) = Inr (Some ''B'')"
  by (simp add: fsm_defs half_ops_def flag_on_def)

end
